theory Spec2Isabelle
  imports Main "HOL-Library.AList"
begin

section \<open>Data model (types.ts)\<close>

datatype CardStyle =
  Blue | Indigo | Purple | Pink | Red | Orange | Yellow | Green | Teal | Cyan
  | White | Gray | GrayDark

text \<open>
  The \<^verbatim>\<open>Note\<close> type. The fields \<^verbatim>\<open>id\<close>, \<^verbatim>\<open>x\<close>, \<^verbatim>\<open>y\<close>, \<^verbatim>\<open>w\<close>, \<^verbatim>\<open>h\<close> carry the suffix
  \<open>_n\<close>, since \<open>id\<close> is a HOL constant and one-letter field names would capture variables.
  A number is a value as \<^verbatim>\<open>JSON.parse\<close> or the caller delivers it; the model covers the
  finite integer-valued ones. Comparison and \<^verbatim>\<open>Math.max\<close> are exact on them; the one
  addition that can round, \<^verbatim>\<open>maxZIndex + 1\<close>, is \<open>js_plus1\<close> below. The geometry is
  carried along unchanged by every operation.
\<close>

record Note =
  id_n :: string
  x_n :: int
  y_n :: int
  w_n :: int
  h_n :: int
  style :: CardStyle
  header :: string
  content :: string
  zIndex :: int

text \<open>
  \<^verbatim>\<open>type BackendNote = Note & { z_index?: number }\<close>, as it arrives from
  \<^verbatim>\<open>JSON.parse\<close>: the fields the handlers test for presence are options
  (\<open>None\<close> is \<^verbatim>\<open>undefined\<close> or \<^verbatim>\<open>null\<close>).
\<close>

record BackendNote =
  b_id :: "string option"
  b_x :: int
  b_y :: int
  b_w :: int
  b_h :: int
  b_style :: CardStyle
  b_header :: string
  b_content :: string
  b_zIndex :: "int option"
  b_z_index :: "int option"

text \<open>
  What \<^verbatim>\<open>ws.onmessage\<close> can find in \<^verbatim>\<open>event.data\<close>: text on which \<^verbatim>\<open>JSON.parse\<close>
  throws, a value that is falsy, not an object or has no \<^verbatim>\<open>type\<close>, or a message with
  one of the three discriminants (or another one). The payload of \<^verbatim>\<open>init\<close> is \<open>None\<close>
  when \<^verbatim>\<open>Array.isArray(msg.notes)\<close> is false; an element of the array is \<open>None\<close> when it
  is falsy.
\<close>

datatype WSMessage =
  ParseError
  | NotAMessage
  | MsgInit "BackendNote option list option"
  | MsgUpdate "BackendNote option"
  | MsgDelete "string option"
  | MsgOther

text \<open>
  An outbound frame: \<^verbatim>\<open>JSON.stringify({ type: 'update', note })\<close> or
  \<^verbatim>\<open>JSON.stringify({ type: 'delete', id })\<close>. Such a string is never empty, so the test
  \<^verbatim>\<open>if (msg)\<close> of the flush loop holds for every queued frame.
\<close>

datatype Frame = UpdateFrame Note | DeleteFrame string

datatype Status = StConnecting | StOpen | StClosed

datatype ReadyState = CONNECTING | OPEN | CLOSING | CLOSED

section \<open>The collection object\<close>

text \<open>
  A value of \<^verbatim>\<open>Record<string, Note>\<close> is a plain JavaScript object: its own properties,
  an association list with distinct keys in insertion order, and its prototype. The
  prototype is \<^verbatim>\<open>Object.prototype\<close> (\<open>None\<close>) unless the assignment
  \<^verbatim>\<open>acc["__proto__"] = note\<close> replaced it by a note (\<open>Some note\<close>). JavaScript
  enumerates keys that look like array indices first; nothing below depends on the order
  of the list.
\<close>

record NoteRecord =
  own :: "(string \<times> Note) list"
  proto :: "Note option"

definition empty_record :: NoteRecord where
  "empty_record = \<lparr>own = [], proto = None\<rparr>"

text \<open>
  \<^verbatim>\<open>acc[i] = note\<close>: the key \<^verbatim>\<open>__proto__\<close> reaches the setter of \<^verbatim>\<open>Object.prototype\<close>,
  which replaces the prototype and creates no own property; every other key becomes an
  own property.
\<close>

definition assign :: "string \<Rightarrow> Note \<Rightarrow> NoteRecord \<Rightarrow> NoteRecord" where
  "assign i note acc =
     (if i = ''__proto__'' then acc\<lparr>proto := Some note\<rparr>
      else acc\<lparr>own := AList.update i note (own acc)\<rparr>)"

text \<open>
  \<^verbatim>\<open>{ ...prev, [i]: note }\<close>: a fresh object with the own properties of \<^verbatim>\<open>prev\<close> and
  the own property \<^verbatim>\<open>i\<close> (a computed key defines an own property, also for
  \<^verbatim>\<open>__proto__\<close>).
\<close>

definition spread_with :: "NoteRecord \<Rightarrow> string \<Rightarrow> Note \<Rightarrow> NoteRecord" where
  "spread_with prev i note = \<lparr>own = AList.update i note (own prev), proto = None\<rparr>"

text \<open>\<^verbatim>\<open>const { [i]: _, ...rest } = prev\<close>\<close>

definition rest_without :: "NoteRecord \<Rightarrow> string \<Rightarrow> NoteRecord" where
  "rest_without prev i = \<lparr>own = AList.delete i (own prev), proto = None\<rparr>"

text \<open>
  \<^verbatim>\<open>prev[i]?.zIndex\<close>: the own property if there is one. Otherwise the lookup goes to the
  prototype chain: the getter \<^verbatim>\<open>__proto__\<close> returns the prototype, a note when the
  prototype was replaced; every other inherited property is a string, a number or a
  function of \<^verbatim>\<open>Object.prototype\<close>, whose \<^verbatim>\<open>zIndex\<close> is undefined.
\<close>

definition existingZIndex :: "NoteRecord \<Rightarrow> string \<Rightarrow> int option" where
  "existingZIndex prev i =
     (case map_of (own prev) i of
        Some note \<Rightarrow> Some (zIndex note)
      | None \<Rightarrow> if i = ''__proto__'' then map_option zIndex (proto prev) else None)"

section \<open>Normalization of zIndex\<close>

text \<open>The operator \<^verbatim>\<open>a ?? b\<close>.\<close>

definition nullish :: "'a option \<Rightarrow> 'a \<Rightarrow> 'a" where
  "nullish a b = (case a of Some v \<Rightarrow> v | None \<Rightarrow> b)"

text \<open>\<^verbatim>\<open>backendNote.zIndex ?? backendNote.z_index\<close>\<close>

definition backendZIndex :: "BackendNote \<Rightarrow> int option" where
  "backendZIndex b = (case b_zIndex b of Some z \<Rightarrow> Some z | None \<Rightarrow> b_z_index b)"

text \<open>The object literal \<^verbatim>\<open>normalizedNote\<close> of both inbound handlers.\<close>

definition normalizedNote :: "BackendNote \<Rightarrow> string \<Rightarrow> int \<Rightarrow> Note" where
  "normalizedNote b i z =
     \<lparr>id_n = i, x_n = b_x b, y_n = b_y b, w_n = b_w b, h_n = b_h b, style = b_style b,
      header = b_header b, content = b_content b, zIndex = z\<rparr>"

text \<open>The body of the \<^verbatim>\<open>reduce\<close> callback of the init branch.\<close>

definition init_step :: "NoteRecord \<Rightarrow> BackendNote option \<Rightarrow> nat \<Rightarrow> NoteRecord" where
  "init_step acc n index =
     (case n of
        None \<Rightarrow> acc
      | Some b \<Rightarrow>
          (case b_id b of
             None \<Rightarrow> acc
           | Some i \<Rightarrow>
               if i = [] then acc
               else assign i (normalizedNote b i (nullish (backendZIndex b) (int index + 1))) acc))"

text \<open>\<^verbatim>\<open>msg.notes.reduce((acc, n, index) => ..., {})\<close>, from position \<open>index\<close> on.\<close>

fun init_reduce :: "NoteRecord \<Rightarrow> BackendNote option list \<Rightarrow> nat \<Rightarrow> NoteRecord" where
  "init_reduce acc [] index = acc"
| "init_reduce acc (n # ns) index = init_reduce (init_step acc n index) ns (Suc index)"

text \<open>\<^verbatim>\<open>finalZIndex\<close> of the update branch.\<close>

definition finalZIndex_update :: "int option \<Rightarrow> int option \<Rightarrow> int" where
  "finalZIndex_update bz ez =
     (case bz of
        None \<Rightarrow> nullish ez 1
      | Some z \<Rightarrow> if z > 0 then max z (nullish ez 0) else nullish ez 1)"

text \<open>\<^verbatim>\<open>finalZIndex\<close> of \<^verbatim>\<open>upsertNote\<close>: \<^verbatim>\<open>note.zIndex != null\<close> holds of every \<^verbatim>\<open>Note\<close>.\<close>

definition finalZIndex_upsert :: "Note \<Rightarrow> int option \<Rightarrow> int" where
  "finalZIndex_upsert note ez = (if zIndex note > 0 then zIndex note else nullish ez 1)"

definition noteToSave :: "Note \<Rightarrow> NoteRecord \<Rightarrow> Note" where
  "noteToSave note prev =
     note\<lparr>zIndex := finalZIndex_upsert note (existingZIndex prev (id_n note))\<rparr>"

section \<open>The state of the hook useSyncNotes\<close>

text \<open>
  The four functions the hook passes to \<^verbatim>\<open>setNotes\<close>: the value \<^verbatim>\<open>noteMap\<close> of the init
  branch, the updater of \<^verbatim>\<open>upsertNote\<close>, the updater of the update branch (for the entity
  and its id) and the updater of both delete paths.
\<close>

datatype Updater =
  SetNoteMap NoteRecord
  | UpsertUpdater Note
  | UpdateUpdater BackendNote string
  | DeleteUpdater string

text \<open>
  The React state \<^verbatim>\<open>notes\<close> is \<open>notes_st\<close> (\<open>notes\<close> is a keyword here), the value of
  the last render, together with \<open>pending\<close>, the updates dispatched since, in order; the
  flag of an update says that React has already called its function (when it computed
  the state eagerly at the dispatch). \<open>strictMode\<close> says that the component is rendered
  under \<^verbatim>\<open>StrictMode\<close> in a development build, where React calls an updater twice.
  How it repeats the calls of several updates of one render, and whether it repeats a
  call made at the dispatch, depends on the React version, which is not part of the
  sources: no statement below is about these two cases.

  Then \<open>status\<close> and the five refs of the hook, and the environment they act on:
  \<open>sockets\<close> is the store of every \<^verbatim>\<open>WebSocket\<close> created so far (a socket is its index,
  the entry its \<^verbatim>\<open>readyState\<close>); \<open>timers\<close> is the store of every \<^verbatim>\<open>setTimeout\<close> call
  (delay in ms, still pending or not); \<open>sent\<close> is the log of the \<^verbatim>\<open>send\<close> calls
  (socket, frame) in order; \<open>url_valid\<close> says whether \<^verbatim>\<open>new WebSocket(url)\<close> returns
  rather than throws.
\<close>

record hook =
  notes_st :: NoteRecord
  pending :: "(Updater \<times> bool) list"
  strictMode :: bool
  status :: Status
  sockets :: "ReadyState list"
  socketRef :: "nat option"
  isMountedRef :: bool
  reconnectTimeoutRef :: "nat option"
  timers :: "(nat \<times> bool) list"
  reconnectAttempts :: nat
  messageQueue :: "Frame list"
  sent :: "(nat \<times> Frame) list"
  url_valid :: bool



definition MAX_QUEUE_SIZE :: nat where
  "MAX_QUEUE_SIZE = 100"

text \<open>\<^verbatim>\<open>socketRef.current?.readyState === WebSocket.OPEN\<close>\<close>

definition socket_is_open :: "hook \<Rightarrow> bool" where
  "socket_is_open s =
     (case socketRef s of
        None \<Rightarrow> False
      | Some ws \<Rightarrow> ws < length (sockets s) \<and> sockets s ! ws = OPEN)"

section \<open>Connection manager\<close>

text \<open>
  \<^verbatim>\<open>connect\<close>: returns at once when the component is unmounted or the current socket is
  open. Otherwise it sets the status, creates a socket and stores it in the ref; when the
  constructor throws, the \<^verbatim>\<open>catch\<close> sets the status to closed.
\<close>

definition connect :: "hook \<Rightarrow> hook" where
  "connect s =
     (if \<not> isMountedRef s \<or> socket_is_open s then s
      else if url_valid s then
        s\<lparr>status := StConnecting,
          sockets := sockets s @ [CONNECTING],
          socketRef := Some (length (sockets s))\<rparr>
      else s\<lparr>status := StClosed\<rparr>)"

definition send :: "nat \<Rightarrow> Frame \<Rightarrow> hook \<Rightarrow> hook" where
  "send ws msg s = s\<lparr>sent := sent s @ [(ws, msg)]\<rparr>"

text \<open>
  The loop \<^verbatim>\<open>while (messageQueue.current.length > 0) { const msg = shift(); if (msg) ws.send(msg) }\<close>.
\<close>

function flush :: "nat \<Rightarrow> hook \<Rightarrow> hook" where
  "flush ws s =
     (case messageQueue s of
        [] \<Rightarrow> s
      | msg # rest \<Rightarrow> flush ws (send ws msg (s\<lparr>messageQueue := rest\<rparr>)))"
  by pat_completeness auto
termination
  by (relation "measure (\<lambda>(ws, s). length (messageQueue s))") (auto simp: send_def)

declare flush.simps [simp del]

text \<open>\<^verbatim>\<open>ws.onopen\<close>: the handler of the open event of socket \<open>ws\<close>.\<close>

definition onopen :: "nat \<Rightarrow> hook \<Rightarrow> hook" where
  "onopen ws s =
     (if \<not> isMountedRef s then s\<lparr>sockets := (sockets s)[ws := CLOSING]\<rparr>
      else flush ws (s\<lparr>status := StOpen, reconnectAttempts := 0\<rparr>))"





section \<open>Sending or queueing a frame\<close>

text \<open>
  The queueing branch shared by \<^verbatim>\<open>upsertNote\<close> and \<^verbatim>\<open>deleteNote\<close>: a full queue
  loses its oldest frame (\<^verbatim>\<open>shift\<close>) before the \<^verbatim>\<open>push\<close>.
\<close>

definition enqueue :: "Frame \<Rightarrow> Frame list \<Rightarrow> Frame list" where
  "enqueue payload q =
     (if length q \<ge> MAX_QUEUE_SIZE then tl q else q) @ [payload]"

text \<open>Send on the open socket, or queue.\<close>

definition transmit :: "Frame \<Rightarrow> hook \<Rightarrow> hook" where
  "transmit payload s =
     (case socketRef s of
        None \<Rightarrow> s\<lparr>messageQueue := enqueue payload (messageQueue s)\<rparr>
      | Some ws \<Rightarrow>
          if socket_is_open s then send ws payload s
          else s\<lparr>messageQueue := enqueue payload (messageQueue s)\<rparr>)"

section \<open>The updates of the collection\<close>

text \<open>
  What a function passed to \<^verbatim>\<open>setNotes\<close> returns for the state \<^verbatim>\<open>prev\<close> it receives.
\<close>

definition returned :: "Updater \<Rightarrow> NoteRecord \<Rightarrow> NoteRecord" where
  "returned u prev =
     (case u of
        SetNoteMap noteMap \<Rightarrow> noteMap
      | UpsertUpdater note \<Rightarrow> spread_with prev (id_n note) (noteToSave note prev)
      | UpdateUpdater b i \<Rightarrow>
          spread_with prev i
            (normalizedNote b i (finalZIndex_update (backendZIndex b) (existingZIndex prev i)))
      | DeleteUpdater i \<Rightarrow> rest_without prev i)"

text \<open>
  What one call of such a function does besides: the updater of \<^verbatim>\<open>upsertNote\<close> sends or
  queues the frame of the note it saves; the others do nothing.
\<close>

definition effects :: "Updater \<Rightarrow> NoteRecord \<Rightarrow> hook \<Rightarrow> hook" where
  "effects u prev s =
     (case u of
        UpsertUpdater note \<Rightarrow> transmit (UpdateFrame (noteToSave note prev)) s
      | _ \<Rightarrow> s)"

text \<open>
  The state the next updater receives: the rendered state with the pending updates
  applied in order.
\<close>

definition current :: "hook \<Rightarrow> NoteRecord" where
  "current s = foldl (\<lambda>prev p. returned (fst p) prev) (notes_st s) (pending s)"

text \<open>
  \<^verbatim>\<open>setNotes(u)\<close>. React queues the update for the next render. When no update is
  pending it may compute the next state at once, calling the function during the
  dispatch; \<open>eager\<close> says whether it does. With an update pending, the function is not
  called before the render.
\<close>

definition setNotes :: "bool \<Rightarrow> Updater \<Rightarrow> hook \<Rightarrow> hook" where
  "setNotes eager u s =
     (if eager \<and> pending s = [] then (effects u (notes_st s) s)\<lparr>pending := [(u, True)]\<rparr>
      else s\<lparr>pending := pending s @ [(u, False)]\<rparr>)"

text \<open>
  A render: React goes through the pending updates in order, calls the function of
  every update it has not called yet (twice under \<open>strictMode\<close>) with the state the
  earlier updates produced, and the last state becomes \<^verbatim>\<open>notes\<close>.
\<close>

fun process :: "(Updater \<times> bool) list \<Rightarrow> NoteRecord \<Rightarrow> hook \<Rightarrow> hook" where
  "process [] prev s = s\<lparr>notes_st := prev, pending := []\<rparr>"
| "process ((u, called) # us) prev s =
     process us (returned u prev)
       (if called then s
        else if strictMode s then effects u prev (effects u prev s)
        else effects u prev s)"

definition render :: "hook \<Rightarrow> hook" where
  "render s = process (pending s) (notes_st s) s"

section \<open>Local intents\<close>

text \<open>
  \<^verbatim>\<open>upsertNote\<close>: the whole body is the updater given to \<^verbatim>\<open>setNotes\<close>, so the frame
  is sent or queued when React calls the updater.
\<close>

definition upsertNote :: "bool \<Rightarrow> Note \<Rightarrow> hook \<Rightarrow> hook" where
  "upsertNote eager note s = setNotes eager (UpsertUpdater note) s"

text \<open>
  \<^verbatim>\<open>deleteNote\<close>: the updater only removes the key (whether React calls it at the
  dispatch or at the render cannot be observed, so it is queued); the frame is sent or
  queued in the call itself.
\<close>

definition deleteNote :: "string \<Rightarrow> hook \<Rightarrow> hook" where
  "deleteNote i s = transmit (DeleteFrame i) (setNotes False (DeleteUpdater i) s)"

section \<open>Inbound frames\<close>

text \<open>\<^verbatim>\<open>ws.onmessage\<close>; its updates have no effects and are queued like the one above.\<close>

definition onmessage :: "WSMessage \<Rightarrow> hook \<Rightarrow> hook" where
  "onmessage m s =
     (case m of
        ParseError \<Rightarrow> s
      | NotAMessage \<Rightarrow> s
      | MsgInit None \<Rightarrow> s
      | MsgInit (Some ns) \<Rightarrow> setNotes False (SetNoteMap (init_reduce empty_record ns 0)) s
      | MsgUpdate None \<Rightarrow> s
      | MsgUpdate (Some b) \<Rightarrow>
          (case b_id b of
             None \<Rightarrow> s
           | Some i \<Rightarrow> if i = [] then s else setNotes False (UpdateUpdater b i) s)
      | MsgDelete None \<Rightarrow> s
      | MsgDelete (Some i) \<Rightarrow> if i = [] then s else setNotes False (DeleteUpdater i) s
      | MsgOther \<Rightarrow> s)"

section \<open>Bring to front (App.tsx)\<close>

text \<open>
  \<^verbatim>\<open>Object.values(notes).reduce((max, n) => Math.max(max, n.zIndex || 0), 0)\<close>, over the
  own properties of the rendered state.
\<close>

definition maxZIndex :: "(string \<times> Note) list \<Rightarrow> int" where
  "maxZIndex ns =
     foldl (\<lambda>mx n. max mx (if zIndex n = 0 then 0 else zIndex n)) 0 (map snd ns)"

text \<open>
  \<^verbatim>\<open>n + 1\<close> on an integer-valued double: exact while the sum is at most \<open>2 ^ 53\<close> in
  absolute value. Beyond, between \<open>2 ^ 53\<close> and \<open>2 ^ 54\<close> the doubles are the even
  numbers and the sum is a tie, rounded to the neighbour with the even significand;
  from \<open>2 ^ 54\<close> on the sum rounds back to \<open>n\<close>.
\<close>

definition js_plus1 :: "int \<Rightarrow> int" where
  "js_plus1 n =
     (if - (2 ^ 53) \<le> n + 1 \<and> n + 1 \<le> 2 ^ 53 then n + 1
      else if \<bar>n\<bar> < 2 ^ 54 then (if even (\<bar>n\<bar> div 2) then n else n + 2)
      else n)"

text \<open>
  \<^verbatim>\<open>handleUpdateNote\<close> is a \<^verbatim>\<open>useCallback\<close> closure over the constant \<^verbatim>\<open>maxZIndex\<close> that
  \<^verbatim>\<open>useMemo\<close> computed from \<^verbatim>\<open>notes\<close> when the component rendered: the first argument is
  that captured value.
\<close>

definition handleUpdateNote :: "int \<Rightarrow> bool \<Rightarrow> Note \<Rightarrow> hook \<Rightarrow> hook" where
  "handleUpdateNote maxZ eager updatedNote s =
     (if zIndex updatedNote < maxZ
      then upsertNote eager (updatedNote\<lparr>zIndex := js_plus1 maxZ\<rparr>) s
      else upsertNote eager updatedNote s)"

section \<open>Scenarios\<close>

text \<open>
  The local collection: the own properties of the state the next updater receives (and
  the next render shows).
\<close>

definition collection :: "hook \<Rightarrow> (string \<times> Note) list" where
  "collection s = own (current s)"

text \<open>
  The state the hook starts in (the initial values of \<^verbatim>\<open>useState\<close> and \<^verbatim>\<open>useRef\<close>), for a
  URL the constructor accepts or not, in a production build; sample notes and wire
  entities; and a board with the stacking orders a:3, b:5, c:2.
\<close>

definition initial :: "bool \<Rightarrow> hook" where
  "initial u =
     \<lparr>notes_st = empty_record, pending = [], strictMode = False,
      status = StConnecting, sockets = [], socketRef = None,
      isMountedRef = True, reconnectTimeoutRef = None, timers = [],
      reconnectAttempts = 0, messageQueue = [], sent = [], url_valid = u\<rparr>"

definition sample :: "string \<Rightarrow> int \<Rightarrow> Note" where
  "sample i z =
     \<lparr>id_n = i, x_n = 0, y_n = 0, w_n = 150, h_n = 150, style = Yellow,
      header = ''H'', content = [], zIndex = z\<rparr>"

definition backend :: "string option \<Rightarrow> int option \<Rightarrow> int option \<Rightarrow> BackendNote" where
  "backend i camel snake =
     \<lparr>b_id = i, b_x = 0, b_y = 0, b_w = 150, b_h = 150, b_style = Yellow,
      b_header = ''H'', b_content = [], b_zIndex = camel, b_z_index = snake\<rparr>"

definition board :: hook where
  "board = (initial True)\<lparr>notes_st :=
     \<lparr>own = [(''a'', sample ''a'' 3), (''b'', sample ''b'' 5), (''c'', sample ''c'' 2)],
      proto = None\<rparr>\<rparr>"

text \<open>
  The open event of socket \<open>ws\<close>: the socket reaches \<^verbatim>\<open>OPEN\<close>, then its handler runs.
\<close>

definition open_event :: "nat \<Rightarrow> hook \<Rightarrow> hook" where
  "open_event ws s = onopen ws (s\<lparr>sockets := (sockets s)[ws := OPEN]\<rparr>)"

text \<open>
  The ways a stored zIndex is rewritten: a local \<^verbatim>\<open>upsertNote\<close> (with the choice React
  makes at the dispatch) and an inbound update frame; a render in between changes
  nothing of the collection. \<open>lowers\<close> says that a note carries a positive zIndex below
  the one stored under its id; \<open>no_lowering\<close> says that no local upsert of a run does so
  in the collection it meets.
\<close>

datatype ZOp = LocalUpsert bool Note | RemoteUpdate BackendNote | Render

definition apply_zop :: "ZOp \<Rightarrow> hook \<Rightarrow> hook" where
  "apply_zop a s =
     (case a of
        LocalUpsert eager note \<Rightarrow> upsertNote eager note s
      | RemoteUpdate b \<Rightarrow> onmessage (MsgUpdate (Some b)) s
      | Render \<Rightarrow> render s)"

fun run_zops :: "ZOp list \<Rightarrow> hook \<Rightarrow> hook" where
  "run_zops [] s = s"
| "run_zops (a # as) s = run_zops as (apply_zop a s)"

definition lowers :: "Note \<Rightarrow> (string \<times> Note) list \<Rightarrow> bool" where
  "lowers note ns =
     (case map_of ns (id_n note) of
        None \<Rightarrow> False
      | Some stored \<Rightarrow> 0 < zIndex note \<and> zIndex note < zIndex stored)"

fun no_lowering :: "ZOp list \<Rightarrow> hook \<Rightarrow> bool" where
  "no_lowering [] s = True"
| "no_lowering (a # as) s =
     ((case a of LocalUpsert eager note \<Rightarrow> \<not> lowers note (collection s) | _ \<Rightarrow> True)
      \<and> no_lowering as (apply_zop a s))"






text \<open>
  The zIndex rule of an inbound update in the words of the specification: the remote value
  (camelCase field, else the snake_case one) if present and positive, merged with the
  known local value by maximum; otherwise the known local value, else 1.
\<close>

definition spec_update_zIndex :: "int option \<Rightarrow> int option \<Rightarrow> int option \<Rightarrow> int" where
  "spec_update_zIndex camel snake known =
     (case (case camel of Some z \<Rightarrow> Some z | None \<Rightarrow> snake) of
        Some r \<Rightarrow>
          if 0 < r then (case known of None \<Rightarrow> r | Some l \<Rightarrow> max r l)
          else (case known of Some l \<Rightarrow> l | None \<Rightarrow> 1)
      | None \<Rightarrow> (case known of Some l \<Rightarrow> l | None \<Rightarrow> 1))"

text \<open>
  The zIndex rule of init in the words of the specification: the zIndex field if present
  and positive, else the alternate field if present and positive, else the 1-based
  position in the batch.
\<close>

definition positive :: "int option \<Rightarrow> int option" where
  "positive v = (case v of None \<Rightarrow> None | Some z \<Rightarrow> if 0 < z then Some z else None)"

definition spec_init_zIndex :: "int option \<Rightarrow> int option \<Rightarrow> nat \<Rightarrow> int" where
  "spec_init_zIndex camel snake position =
     (case positive camel of
        Some z \<Rightarrow> z
      | None \<Rightarrow> (case positive snake of Some z \<Rightarrow> z | None \<Rightarrow> int position))"

text \<open>
  The id an element of an init batch carries, if it is not falsy and its id is neither
  missing nor empty.
\<close>

definition accepted_id :: "BackendNote option \<Rightarrow> string option" where
  "accepted_id n =
     (case n of
        None \<Rightarrow> None
      | Some b \<Rightarrow> (case b_id b of None \<Rightarrow> None | Some i \<Rightarrow> if i = [] then None else Some i))"

section \<open>Updates and renders\<close>

lemma transmit_fields [simp]:
  "notes_st (transmit f s) = notes_st s" "pending (transmit f s) = pending s"
  "strictMode (transmit f s) = strictMode s" "status (transmit f s) = status s"
  "sockets (transmit f s) = sockets s" "socketRef (transmit f s) = socketRef s"
  "isMountedRef (transmit f s) = isMountedRef s"
  "reconnectAttempts (transmit f s) = reconnectAttempts s" "timers (transmit f s) = timers s"
  "reconnectTimeoutRef (transmit f s) = reconnectTimeoutRef s" "url_valid (transmit f s) = url_valid s"
  by (simp_all add: transmit_def send_def split: option.splits)

lemma effects_fields [simp]:
  "notes_st (effects u prev s) = notes_st s" "pending (effects u prev s) = pending s"
  "strictMode (effects u prev s) = strictMode s" "status (effects u prev s) = status s"
  "sockets (effects u prev s) = sockets s" "socketRef (effects u prev s) = socketRef s"
  "isMountedRef (effects u prev s) = isMountedRef s"
  "reconnectAttempts (effects u prev s) = reconnectAttempts s" "timers (effects u prev s) = timers s"
  "reconnectTimeoutRef (effects u prev s) = reconnectTimeoutRef s"
  "url_valid (effects u prev s) = url_valid s"
  by (simp_all add: effects_def split: Updater.splits)

lemma socket_is_open_transmit [simp]: "socket_is_open (transmit f s) = socket_is_open s"
  by (simp add: socket_is_open_def split: option.splits)

lemma socket_is_open_effects [simp]: "socket_is_open (effects u prev s) = socket_is_open s"
  by (simp add: socket_is_open_def split: option.splits)

lemma current_transmit [simp]: "current (transmit f s) = current s"
  by (simp add: current_def)

lemma current_setNotes: "current (setNotes eager u s) = returned u (current s)"
  by (simp add: setNotes_def current_def)

lemma process_notes:
  "notes_st (process us prev s) = foldl (\<lambda>prev p. returned (fst p) prev) prev us
 \<and> pending (process us prev s) = []"
  by (induction us prev s rule: process.induct) simp_all

lemma current_render: "current (render s) = current s"
  by (simp add: render_def current_def process_notes)

lemma notes_render: "notes_st (render s) = current s"
  by (simp add: render_def current_def process_notes)

lemma collection_upsertNote:
  "collection (upsertNote eager note s)
     = AList.update (id_n note) (noteToSave note (current s)) (collection s)"
  by (simp add: collection_def upsertNote_def current_setNotes returned_def spread_with_def)


lemma collection_render: "collection (render s) = collection s"
  by (simp add: collection_def current_render)

section \<open>Flushing the queue when a session opens\<close>

lemma flush_sent: "sent (flush ws s) = sent s @ map (Pair ws) (messageQueue s)"
proof (induction ws s rule: flush.induct)
  case (1 ws s)
  show ?case
  proof (cases "messageQueue s")
    case Nil
    then show ?thesis by (subst flush.simps) simp
  next
    case (Cons msg rest)
    with 1 [OF Cons] show ?thesis by (subst flush.simps) (simp add: send_def)
  qed
qed

lemma flush_queue: "messageQueue (flush ws s) = []"
proof (induction ws s rule: flush.induct)
  case (1 ws s)
  show ?case
  proof (cases "messageQueue s")
    case Nil
    then show ?thesis by (subst flush.simps) simp
  next
    case (Cons msg rest)
    with 1 [OF Cons] show ?thesis by (subst flush.simps) simp
  qed
qed

lemma flush_status: "status (flush ws s) = status s \<and> reconnectAttempts (flush ws s) = reconnectAttempts s"
proof (induction ws s rule: flush.induct)
  case (1 ws s)
  show ?case
  proof (cases "messageQueue s")
    case Nil
    then show ?thesis by (subst (1 2) flush.simps) simp
  next
    case (Cons msg rest)
    with 1 [OF Cons] show ?thesis by (subst (1 2) flush.simps) (simp add: send_def)
  qed
qed

text \<open>
  Claim C7. When the open handler runs while the component is mounted, the status becomes
  open, the reconnect counter is 0, the frames of the queue are sent on the socket once
  each, oldest first, and the queue is empty afterwards.
\<close>

theorem onopen_flushes_queue:
  assumes "isMountedRef s"
  shows "status (onopen ws s) = StOpen
       \<and> reconnectAttempts (onopen ws s) = 0
       \<and> sent (onopen ws s) = sent s @ map (Pair ws) (messageQueue s)
       \<and> messageQueue (onopen ws s) = []"
  using assms by (simp add: onopen_def flush_sent flush_queue flush_status)

theorem onopen_flushes_queue_witness:
  "isMountedRef (render (upsertNote False (sample ''b'' 2) (deleteNote ''a'' (initial True))))
   \<and> status (onopen 0 (render (upsertNote False (sample ''b'' 2) (deleteNote ''a'' (initial True))))) = StOpen
   \<and> sent (onopen 0 (render (upsertNote False (sample ''b'' 2) (deleteNote ''a'' (initial True)))))
       = [(0, DeleteFrame ''a''), (0, UpdateFrame (sample ''b'' 2))]
   \<and> messageQueue (onopen 0 (render (upsertNote False (sample ''b'' 2) (deleteNote ''a'' (initial True))))) = []"
proof -
  let ?s = "render (upsertNote False (sample ''b'' 2) (deleteNote ''a'' (initial True)))"
  have d: "deleteNote ''a'' (initial True)
           = (initial True)\<lparr>pending := [(DeleteUpdater ''a'', False)], messageQueue := [DeleteFrame ''a'']\<rparr>"
    by (simp add: deleteNote_def setNotes_def transmit_def initial_def enqueue_def MAX_QUEUE_SIZE_def)
  have r: "?s = (initial True)\<lparr>notes_st := \<lparr>own = [(''b'', sample ''b'' 2)], proto = None\<rparr>,
                               messageQueue := [DeleteFrame ''a'', UpdateFrame (sample ''b'' 2)]\<rparr>"
    by (simp add: d upsertNote_def setNotes_def render_def)
       (simp add: initial_def returned_def effects_def transmit_def enqueue_def MAX_QUEUE_SIZE_def
         rest_without_def spread_with_def noteToSave_def finalZIndex_upsert_def sample_def
         empty_record_def)
  have m: "isMountedRef ?s" by (simp add: r) (simp add: initial_def)
  have q: "messageQueue ?s = [DeleteFrame ''a'', UpdateFrame (sample ''b'' 2)]" by (simp add: r)
  have s: "sent ?s = []" by (simp add: r) (simp add: initial_def)
  show ?thesis using onopen_flushes_queue [OF m, of 0] m q s by simp
qed

section \<open>Deleting an unknown id\<close>



section \<open>connect\<close>

text \<open>
  Claim C4, as stated, fails: from the initial state, connect creates socket 0 in state
  CONNECTING, and a second connect creates socket 1 and stores it in the ref.
\<close>

theorem connect_while_connecting:
  "status (connect (initial True)) = StConnecting
 \<and> sockets (connect (initial True)) = [CONNECTING]
 \<and> socketRef (connect (initial True)) = Some 0
 \<and> sockets (connect (connect (initial True))) = [CONNECTING, CONNECTING]
 \<and> socketRef (connect (connect (initial True))) = Some 1
 \<and> connect (connect (initial True)) \<noteq> connect (initial True)"
proof -
  have 1: "connect (initial True) = (initial True)\<lparr>status := StConnecting, sockets := [CONNECTING], socketRef := Some 0\<rparr>"
    by (simp add: connect_def initial_def socket_is_open_def)
  have 2: "connect (connect (initial True))
           = (initial True)\<lparr>status := StConnecting, sockets := [CONNECTING, CONNECTING], socketRef := Some 1\<rparr>"
    by (simp add: 1) (simp add: connect_def initial_def socket_is_open_def)
  have 3: "connect (connect (initial True)) \<noteq> connect (initial True)"
  proof
    assume "connect (connect (initial True)) = connect (initial True)"
    then have "socketRef (connect (connect (initial True))) = socketRef (connect (initial True))" by simp
    then show False by (simp only: 2) (simp add: 1)
  qed
  have 4: "sockets (connect (connect (initial True))) = [CONNECTING, CONNECTING]"
    "socketRef (connect (connect (initial True))) = Some 1"
    by (simp_all only: 2) simp_all
  show ?thesis using 3 4 by (simp add: 1)
qed

text \<open>
  Claim C4, amended. connect changes nothing when the current socket is open or the
  component is unmounted, so calling it twice there is calling it once. It never changes
  the attempt counter, the queue or the collection. When the component is mounted and the
  current socket is not open (also when it is still connecting): if the constructor
  accepts the URL, connect creates a socket, stores it in the ref and sets the status to
  connecting; if the constructor throws, connect creates no socket and only sets the
  status to closed.
\<close>

theorem connect_noop_when_open:
  "(socket_is_open s \<or> \<not> isMountedRef s \<longrightarrow> connect s = s \<and> connect (connect s) = connect s)
 \<and> reconnectAttempts (connect s) = reconnectAttempts s
 \<and> messageQueue (connect s) = messageQueue s
 \<and> current (connect s) = current s
 \<and> (isMountedRef s \<and> \<not> socket_is_open s \<and> url_valid s \<longrightarrow>
       connect s = s\<lparr>status := StConnecting, sockets := sockets s @ [CONNECTING],
                     socketRef := Some (length (sockets s))\<rparr>)
 \<and> (isMountedRef s \<and> \<not> socket_is_open s \<and> \<not> url_valid s \<longrightarrow>
       connect s = s\<lparr>status := StClosed\<rparr>)"
proof -
  have noop: "connect s = s" if "socket_is_open s \<or> \<not> isMountedRef s"
    using that by (auto simp: connect_def)
  then have twice: "connect (connect s) = connect s" if "socket_is_open s \<or> \<not> isMountedRef s"
    using that by simp
  have kept: "reconnectAttempts (connect s) = reconnectAttempts s"
    "messageQueue (connect s) = messageQueue s" "current (connect s) = current s"
    by (simp_all add: connect_def current_def)
  have fresh: "connect s = s\<lparr>status := StConnecting, sockets := sockets s @ [CONNECTING],
                     socketRef := Some (length (sockets s))\<rparr>"
    if "isMountedRef s \<and> \<not> socket_is_open s \<and> url_valid s"
    using that by (simp add: connect_def)
  have thrown: "connect s = s\<lparr>status := StClosed\<rparr>"
    if "isMountedRef s \<and> \<not> socket_is_open s \<and> \<not> url_valid s"
    using that by (simp add: connect_def)
  from noop twice kept fresh thrown show ?thesis by blast
qed

theorem connect_noop_when_open_witness:
  "socket_is_open (open_event 0 (connect (initial True)))
 \<and> connect (open_event 0 (connect (initial True))) = open_event 0 (connect (initial True))
 \<and> isMountedRef (initial True) \<and> \<not> socket_is_open (initial True) \<and> url_valid (initial True)
 \<and> sockets (connect (initial True)) = [CONNECTING]
 \<and> socketRef (connect (initial True)) = Some 0
 \<and> isMountedRef (initial False) \<and> \<not> socket_is_open (initial False) \<and> \<not> url_valid (initial False)
 \<and> sockets (connect (initial False)) = []
 \<and> status (connect (initial False)) = StClosed"
proof -
  let ?s = "open_event 0 (connect (initial True))"
  have c: "connect (initial True) = (initial True)\<lparr>status := StConnecting, sockets := [CONNECTING], socketRef := Some 0\<rparr>"
    by (simp add: connect_def initial_def socket_is_open_def)
  have e: "?s = (initial True)\<lparr>status := StOpen, sockets := [OPEN], socketRef := Some 0\<rparr>"
    by (simp add: c open_event_def onopen_def) (simp add: initial_def flush.simps)
  have o: "socket_is_open ?s" by (simp add: e) (simp add: socket_is_open_def initial_def)
  have i: "isMountedRef (initial True) \<and> \<not> socket_is_open (initial True) \<and> url_valid (initial True)"
    by (simp add: initial_def socket_is_open_def)
  have j: "isMountedRef (initial False) \<and> \<not> socket_is_open (initial False) \<and> \<not> url_valid (initial False)"
    by (simp add: initial_def socket_is_open_def)
  have n: "sockets (initial u) = []" for u by (simp add: initial_def)
  from connect_noop_when_open [of ?s] o have 1: "connect ?s = ?s" by blast
  from connect_noop_when_open [of "initial True"] i
  have "connect (initial True) = (initial True)\<lparr>status := StConnecting,
          sockets := sockets (initial True) @ [CONNECTING],
          socketRef := Some (length (sockets (initial True)))\<rparr>" by blast
  then have 2: "sockets (connect (initial True)) = [CONNECTING]"
    "socketRef (connect (initial True)) = Some 0" by (simp_all add: n)
  from connect_noop_when_open [of "initial False"] j
  have "connect (initial False) = (initial False)\<lparr>status := StClosed\<rparr>" by blast
  then have 3: "sockets (connect (initial False)) = []" "status (connect (initial False)) = StClosed"
    by (simp_all add: n)
  from o 1 i 2 j 3 show ?thesis by blast
qed

section \<open>Reconnect backoff\<close>











section \<open>Inbound init\<close>

lemma collection_init:
  "collection (onmessage (MsgInit (Some ns)) s) = own (init_reduce empty_record ns 0)"
  by (simp add: onmessage_def collection_def current_setNotes returned_def)

lemma init_step_keys:
  "fst ` set (own (init_step acc n k))
     = fst ` set (own acc) \<union> (set_option (accepted_id n) - {''__proto__''})"
  by (auto simp: init_step_def accepted_id_def assign_def dom_update split: option.splits)

lemma init_reduce_keys:
  "fst ` set (own (init_reduce acc ns k))
     = fst ` set (own acc) \<union> ((\<Union>n \<in> set ns. set_option (accepted_id n)) - {''__proto__''})"
  by (induction ns arbitrary: acc k) (auto simp: init_step_keys)

lemma init_step_other:
  "accepted_id n \<noteq> Some i \<Longrightarrow> map_of (own (init_step acc n k)) i = map_of (own acc) i"
  by (auto simp: init_step_def accepted_id_def assign_def update_conv' split: option.splits if_splits)

lemma init_reduce_other:
  "\<forall>n \<in> set ns. accepted_id n \<noteq> Some i \<Longrightarrow>
   map_of (own (init_reduce acc ns k)) i = map_of (own acc) i"
  by (induction ns arbitrary: acc k) (auto simp: init_step_other)

lemma init_reduce_append:
  "init_reduce acc (xs @ ys) k = init_reduce (init_reduce acc xs k) ys (k + length xs)"
  by (induction xs arbitrary: acc k) auto

lemma init_step_accepted:
  "b_id b = Some i \<Longrightarrow> i \<noteq> [] \<Longrightarrow> i \<noteq> ''__proto__'' \<Longrightarrow>
   map_of (own (init_step acc (Some b) k)) i
     = Some \<lparr>id_n = i, x_n = b_x b, y_n = b_y b, w_n = b_w b, h_n = b_h b, style = b_style b,
             header = b_header b, content = b_content b,
             zIndex = (case b_zIndex b of
                         Some z \<Rightarrow> z
                       | None \<Rightarrow> (case b_z_index b of Some z \<Rightarrow> z | None \<Rightarrow> int k + 1))\<rparr>"
  by (simp add: init_step_def assign_def update_conv' normalizedNote_def nullish_def
      backendZIndex_def split: option.splits)

lemma init_one:
  assumes "b_id b = Some i" and "i \<noteq> []" and "i \<noteq> ''__proto__''"
    and "\<forall>e \<in> set post. accepted_id e \<noteq> Some i"
  shows "map_of (own (init_reduce acc (pre @ Some b # post) k)) i
         = Some \<lparr>id_n = i, x_n = b_x b, y_n = b_y b, w_n = b_w b, h_n = b_h b, style = b_style b,
             header = b_header b, content = b_content b,
             zIndex = (case b_zIndex b of
                         Some z \<Rightarrow> z
                       | None \<Rightarrow> (case b_z_index b of
                                    Some z \<Rightarrow> z
                                  | None \<Rightarrow> int (k + length pre) + 1))\<rparr>"
  using assms by (simp add: init_reduce_append init_reduce_other init_step_accepted)

text \<open>
  Init on the other ids: a payload that is not an array changes nothing, and an array
  yields as keys the ids the elements carry, \<^verbatim>\<open>__proto__\<close> apart.
\<close>

lemma init_stores_other_ids:
  "onmessage (MsgInit None) s = s
 \<and> fst ` set (collection (onmessage (MsgInit (Some ns)) s))
     = {i. \<exists>n \<in> set ns. accepted_id n = Some i} - {''__proto__''}"
proof -
  have "onmessage (MsgInit None) s = s" by (simp add: onmessage_def)
  moreover have "fst ` set (collection (onmessage (MsgInit (Some ns)) s))
     = {i. \<exists>n \<in> set ns. accepted_id n = Some i} - {''__proto__''}"
    unfolding collection_init init_reduce_keys by (auto simp: empty_record_def)
  ultimately show ?thesis by blast
qed

text \<open>
  Claim C8 fails on the code by a slip. The init batch with the ids \<^verbatim>\<open>__proto__\<close> and b,
  both present, yields a collection with the single key b: the assignment
  \<^verbatim>\<open>acc["__proto__"] = normalizedNote\<close> replaces the prototype of the accumulator and
  stores no entity, also in the rendered state.
\<close>

theorem init_drops_proto_id:
  "accepted_id (Some (backend (Some ''__proto__'') (Some 1) None)) = Some ''__proto__''
 \<and> accepted_id (Some (backend (Some ''b'') (Some 2) None)) = Some ''b''
 \<and> collection (onmessage
       (MsgInit (Some [Some (backend (Some ''__proto__'') (Some 1) None),
                       Some (backend (Some ''b'') (Some 2) None)])) (initial True))
     = [(''b'', sample ''b'' 2)]
 \<and> notes_st (render (onmessage
       (MsgInit (Some [Some (backend (Some ''__proto__'') (Some 1) None),
                       Some (backend (Some ''b'') (Some 2) None)])) (initial True)))
     = \<lparr>own = [(''b'', sample ''b'' 2)], proto = Some (sample ''__proto__'' 1)\<rparr>"
proof -
  let ?ns = "[Some (backend (Some ''__proto__'') (Some 1) None),
              Some (backend (Some ''b'') (Some 2) None)]"
  have r: "init_reduce empty_record ?ns 0
           = \<lparr>own = [(''b'', sample ''b'' 2)], proto = Some (sample ''__proto__'' 1)\<rparr>"
    by (simp add: init_step_def assign_def backend_def normalizedNote_def nullish_def
        backendZIndex_def sample_def empty_record_def)
  have c: "current (onmessage (MsgInit (Some ?ns)) (initial True)) = init_reduce empty_record ?ns 0"
    by (simp add: onmessage_def current_setNotes returned_def)
  have 1: "collection (onmessage (MsgInit (Some ?ns)) (initial True)) = [(''b'', sample ''b'' 2)]"
    by (simp only: collection_def c r) simp
  have 2: "notes_st (render (onmessage (MsgInit (Some ?ns)) (initial True)))
           = \<lparr>own = [(''b'', sample ''b'' 2)], proto = Some (sample ''__proto__'' 1)\<rparr>"
    by (simp only: notes_render c r)
  have 3: "accepted_id (Some (backend (Some ''__proto__'') (Some 1) None)) = Some ''__proto__''"
    "accepted_id (Some (backend (Some ''b'') (Some 2) None)) = Some ''b''"
    by (simp_all add: accepted_id_def backend_def)
  from 1 2 3 show ?thesis by blast
qed

text \<open>
  Claim C3, as stated, fails: an element whose zIndex field is 0 and whose alternate field
  is 5 is stored with zIndex 0, where the rule of the claim gives 5 (and a value of at
  least 1).
\<close>

theorem init_keeps_nonpositive_zIndex:
  "existingZIndex (current (onmessage
      (MsgInit (Some [Some (backend (Some ''a'') (Some 0) (Some 5))])) (initial True))) ''a'' = Some 0
 \<and> spec_init_zIndex (Some 0) (Some 5) 1 = 5"
  by (simp add: onmessage_def current_setNotes returned_def init_step_def assign_def backend_def
      normalizedNote_def nullish_def backendZIndex_def existingZIndex_def spec_init_zIndex_def
      positive_def empty_record_def)

text \<open>
  Claim C3, amended. The element at position \<open>k\<close> (from 0), when it carries an id other
  than \<^verbatim>\<open>__proto__\<close> that no later element carries, is stored with its own fields and with
  the zIndex field if that is present, whatever its sign; else with the alternate field if
  that is present; else with \<open>k + 1\<close>. When the field so chosen is absent or positive,
  this is the value of the rule of the claim, and it is at least 1.
\<close>

theorem init_zIndex_rule:
  assumes "k < length ns" and "ns ! k = Some b" and "b_id b = Some i" and "i \<noteq> []"
    and "i \<noteq> ''__proto__''"
    and "\<forall>j. k < j \<and> j < length ns \<longrightarrow> accepted_id (ns ! j) \<noteq> Some i"
  shows "map_of (collection (onmessage (MsgInit (Some ns)) s)) i
           = Some \<lparr>id_n = i, x_n = b_x b, y_n = b_y b, w_n = b_w b, h_n = b_h b,
                   style = b_style b, header = b_header b, content = b_content b,
                   zIndex = (case b_zIndex b of
                               Some z \<Rightarrow> z
                             | None \<Rightarrow> (case b_z_index b of Some z \<Rightarrow> z | None \<Rightarrow> int k + 1))\<rparr>
       \<and> ((case b_zIndex b of
              Some z \<Rightarrow> 0 < z
            | None \<Rightarrow> (case b_z_index b of Some z \<Rightarrow> 0 < z | None \<Rightarrow> True)) \<longrightarrow>
            (case b_zIndex b of
               Some z \<Rightarrow> z
             | None \<Rightarrow> (case b_z_index b of Some z \<Rightarrow> z | None \<Rightarrow> int k + 1))
              = spec_init_zIndex (b_zIndex b) (b_z_index b) (k + 1)
          \<and> 1 \<le> spec_init_zIndex (b_zIndex b) (b_z_index b) (k + 1))"
proof -
  have split: "ns = take k ns @ Some b # drop (Suc k) ns"
    using assms(1,2) id_take_nth_drop by fastforce
  have post: "\<forall>e \<in> set (drop (Suc k) ns). accepted_id e \<noteq> Some i"
  proof
    fix e assume "e \<in> set (drop (Suc k) ns)"
    then obtain j where "j < length (drop (Suc k) ns)" "e = drop (Suc k) ns ! j"
      by (auto simp: in_set_conv_nth)
    then have "e = ns ! (Suc k + j)" "Suc k + j < length ns" by auto
    with assms(6) show "accepted_id e \<noteq> Some i" by simp
  qed
  have "map_of (own (init_reduce empty_record (take k ns @ Some b # drop (Suc k) ns) 0)) i
        = Some \<lparr>id_n = i, x_n = b_x b, y_n = b_y b, w_n = b_w b, h_n = b_h b, style = b_style b,
             header = b_header b, content = b_content b,
             zIndex = (case b_zIndex b of
                         Some z \<Rightarrow> z
                       | None \<Rightarrow> (case b_z_index b of
                                    Some z \<Rightarrow> z
                                  | None \<Rightarrow> int (0 + length (take k ns)) + 1))\<rparr>"
    by (rule init_one [OF assms(3,4,5) post])
  with split assms(1)
  have m: "map_of (collection (onmessage (MsgInit (Some ns)) s)) i
           = Some \<lparr>id_n = i, x_n = b_x b, y_n = b_y b, w_n = b_w b, h_n = b_h b,
                   style = b_style b, header = b_header b, content = b_content b,
                   zIndex = (case b_zIndex b of
                               Some z \<Rightarrow> z
                             | None \<Rightarrow> (case b_z_index b of Some z \<Rightarrow> z | None \<Rightarrow> int k + 1))\<rparr>"
    by (simp add: collection_init min_def split: option.splits)
  have p: "(case b_zIndex b of
              Some z \<Rightarrow> 0 < z
            | None \<Rightarrow> (case b_z_index b of Some z \<Rightarrow> 0 < z | None \<Rightarrow> True)) \<Longrightarrow>
            (case b_zIndex b of
               Some z \<Rightarrow> z
             | None \<Rightarrow> (case b_z_index b of Some z \<Rightarrow> z | None \<Rightarrow> int k + 1))
              = spec_init_zIndex (b_zIndex b) (b_z_index b) (k + 1)
          \<and> 1 \<le> spec_init_zIndex (b_zIndex b) (b_z_index b) (k + 1)"
    by (auto simp: spec_init_zIndex_def positive_def split: option.splits)
  from m p show ?thesis by blast
qed

theorem init_zIndex_rule_witness:
  "1 < length [Some (backend (Some ''a'') None (Some 4)), Some (backend (Some ''b'') None None), None]
 \<and> [Some (backend (Some ''a'') None (Some 4)), Some (backend (Some ''b'') None None), None] ! 1
     = Some (backend (Some ''b'') None None)
 \<and> b_id (backend (Some ''b'') None None) = Some ''b'' \<and> ''b'' \<noteq> [] \<and> ''b'' \<noteq> ''__proto__''
 \<and> accepted_id ([Some (backend (Some ''a'') None (Some 4)), Some (backend (Some ''b'') None None), None] ! 2)
     \<noteq> Some ''b''
 \<and> map_of (collection (onmessage (MsgInit (Some
       [Some (backend (Some ''a'') None (Some 4)), Some (backend (Some ''b'') None None), None]))
       (initial True))) ''b'' = Some (sample ''b'' 2)
 \<and> spec_init_zIndex None None 2 = 2"
proof -
  let ?ns = "[Some (backend (Some ''a'') None (Some 4)), Some (backend (Some ''b'') None None), None]"
  let ?b = "backend (Some ''b'') None None"
  have 1: "1 < length ?ns" by simp
  have 2: "?ns ! 1 = Some ?b" by simp
  have 3: "b_id ?b = Some ''b''" by (simp add: backend_def)
  have 4: "''b'' \<noteq> []" by simp
  have 5: "''b'' \<noteq> ''__proto__''" by simp
  have 6: "\<forall>j. 1 < j \<and> j < length ?ns \<longrightarrow> accepted_id (?ns ! j) \<noteq> Some ''b''"
  proof (intro allI impI)
    fix j assume "1 < j \<and> j < length ?ns"
    then have "j = 2" by simp
    then show "accepted_id (?ns ! j) \<noteq> Some ''b''" by (simp add: accepted_id_def)
  qed
  have f: "b_zIndex ?b = None" "b_z_index ?b = None"
    "\<lparr>id_n = ''b'', x_n = b_x ?b, y_n = b_y ?b, w_n = b_w ?b, h_n = b_h ?b,
      style = b_style ?b, header = b_header ?b, content = b_content ?b, zIndex = 2\<rparr>
     = sample ''b'' 2"
    by (simp_all add: backend_def sample_def)
  from init_zIndex_rule [OF 1 2 3 4 5 6, of "initial True"]
  have "map_of (collection (onmessage (MsgInit (Some ?ns)) (initial True))) ''b'' = Some (sample ''b'' 2)"
    and "spec_init_zIndex None None 2 = 2"
    by (simp_all add: f numeral_2_eq_2)
  moreover have "accepted_id (?ns ! 2) \<noteq> Some ''b''" by (simp add: accepted_id_def)
  ultimately show ?thesis using 1 2 3 4 5 by blast
qed

section \<open>Inbound update\<close>

lemma collection_update:
  "b_id b = Some i \<Longrightarrow> i \<noteq> [] \<Longrightarrow>
   collection (onmessage (MsgUpdate (Some b)) s)
     = AList.update i
         (normalizedNote b i (finalZIndex_update (backendZIndex b) (existingZIndex (current s) i)))
         (collection s)"
  by (simp add: onmessage_def collection_def current_setNotes returned_def spread_with_def)

lemma collection_update_skipped:
  "b_id b = None \<or> b_id b = Some [] \<Longrightarrow> collection (onmessage (MsgUpdate (Some b)) s) = collection s"
  by (auto simp: onmessage_def)

lemma finalZIndex_update_spec:
  "finalZIndex_update (backendZIndex b) ez = spec_update_zIndex (b_zIndex b) (b_z_index b) ez"
  by (simp add: finalZIndex_update_def backendZIndex_def spec_update_zIndex_def nullish_def
      split: option.splits)

lemma existingZIndex_own:
  "i \<noteq> ''__proto__'' \<or> proto prev = None \<or> map_of (own prev) i \<noteq> None \<Longrightarrow>
   existingZIndex prev i = map_option zIndex (map_of (own prev) i)"
  by (auto simp: existingZIndex_def split: option.splits)

text \<open>
  The rule of the update branch wherever the lookup \<^verbatim>\<open>prev[id]\<close> finds an own property
  or nothing: the stored entity has the fields of the wire entity and the zIndex of the
  specification, which is not below the one stored before.
\<close>

lemma inbound_update_rule:
  assumes "b_id b = Some i" and "i \<noteq> []"
    and "i \<noteq> ''__proto__'' \<or> proto (current s) = None \<or> map_of (collection s) i \<noteq> None"
  shows "map_of (collection (onmessage (MsgUpdate (Some b)) s)) i
           = Some \<lparr>id_n = i, x_n = b_x b, y_n = b_y b, w_n = b_w b, h_n = b_h b,
                   style = b_style b, header = b_header b, content = b_content b,
                   zIndex = spec_update_zIndex (b_zIndex b) (b_z_index b)
                              (map_option zIndex (map_of (collection s) i))\<rparr>"
    and "map_of (collection s) i = Some n \<Longrightarrow>
         zIndex n \<le> spec_update_zIndex (b_zIndex b) (b_z_index b)
                       (map_option zIndex (map_of (collection s) i))"
proof -
  have e: "existingZIndex (current s) i = map_option zIndex (map_of (collection s) i)"
    using assms(3) existingZIndex_own [of i "current s"] by (simp add: collection_def)
  show "map_of (collection (onmessage (MsgUpdate (Some b)) s)) i
           = Some \<lparr>id_n = i, x_n = b_x b, y_n = b_y b, w_n = b_w b, h_n = b_h b,
                   style = b_style b, header = b_header b, content = b_content b,
                   zIndex = spec_update_zIndex (b_zIndex b) (b_z_index b)
                              (map_option zIndex (map_of (collection s) i))\<rparr>"
    by (simp add: collection_update [OF assms(1,2)] update_conv' e finalZIndex_update_spec
        normalizedNote_def)
  show "zIndex n \<le> spec_update_zIndex (b_zIndex b) (b_z_index b)
                       (map_option zIndex (map_of (collection s) i))"
    if "map_of (collection s) i = Some n"
    using that by (simp add: spec_update_zIndex_def split: option.splits)
qed

text \<open>
  Claim C2 fails on the code by a slip (the one of claim C8). After an init batch whose
  only element has the id \<^verbatim>\<open>__proto__\<close> and zIndex 9, the collection is empty. An
  update frame for the id \<^verbatim>\<open>__proto__\<close> with zIndex 3 then reads \<^verbatim>\<open>prev["__proto__"]\<close>,
  which is the prototype the init installed, and stores the maximum 9, where the rule of
  the claim, for an id that is not in the collection, gives 3.
\<close>

theorem inbound_update_reads_prototype:
  "collection (onmessage
      (MsgInit (Some [Some (backend (Some ''__proto__'') (Some 9) None)])) (initial True)) = []
 \<and> collection (onmessage (MsgUpdate (Some (backend (Some ''__proto__'') (Some 3) None)))
      (onmessage (MsgInit (Some [Some (backend (Some ''__proto__'') (Some 9) None)])) (initial True)))
     = [(''__proto__'', sample ''__proto__'' 9)]
 \<and> spec_update_zIndex (Some 3) None None = 3"
proof -
  let ?s0 = "onmessage (MsgInit (Some [Some (backend (Some ''__proto__'') (Some 9) None)])) (initial True)"
  let ?b = "backend (Some ''__proto__'') (Some 3) None"
  have c: "current ?s0 = \<lparr>own = [], proto = Some (sample ''__proto__'' 9)\<rparr>"
    by (simp add: onmessage_def current_setNotes returned_def init_step_def assign_def
        backend_def normalizedNote_def nullish_def backendZIndex_def sample_def empty_record_def)
  have 1: "collection ?s0 = []" by (simp only: collection_def c) simp
  have i: "b_id ?b = Some ''__proto__''" "''__proto__'' \<noteq> []" by (simp_all add: backend_def)
  have "collection (onmessage (MsgUpdate (Some ?b)) ?s0)
        = AList.update ''__proto__''
            (normalizedNote ?b ''__proto__''
              (finalZIndex_update (backendZIndex ?b) (existingZIndex (current ?s0) ''__proto__'')))
            (collection ?s0)"
    by (rule collection_update [OF i])
  also have "\<dots> = [(''__proto__'', sample ''__proto__'' 9)]"
    by (simp only: c 1)
       (simp add: existingZIndex_def finalZIndex_update_def backendZIndex_def nullish_def
         normalizedNote_def backend_def sample_def)
  finally have 2: "collection (onmessage (MsgUpdate (Some ?b)) ?s0)
                   = [(''__proto__'', sample ''__proto__'' 9)]" .
  have 3: "spec_update_zIndex (Some 3) None None = 3" by (simp add: spec_update_zIndex_def)
  from 1 2 3 show ?thesis by blast
qed

section \<open>Monotonicity of the stacking order\<close>

lemma noteToSave_own:
  assumes "id_n u \<noteq> ''__proto__'' \<or> proto prev = None \<or> map_of (own prev) (id_n u) \<noteq> None"
  shows "noteToSave u prev
         = u\<lparr>zIndex := if 0 < zIndex u then zIndex u
                        else (case map_of (own prev) (id_n u) of
                                Some stored \<Rightarrow> zIndex stored
                              | None \<Rightarrow> 1)\<rparr>"
  using existingZIndex_own [OF assms]
  by (simp add: noteToSave_def finalZIndex_upsert_def nullish_def split: option.splits)

lemma upsert_step:
  assumes "map_of (collection s) i = Some n" and "\<not> lowers u (collection s)"
  shows "\<exists>n'. map_of (collection (upsertNote eager u s)) i = Some n' \<and> zIndex n \<le> zIndex n'"
proof (cases "id_n u = i")
  case True
  with assms(1) have "map_of (own (current s)) (id_n u) \<noteq> None" by (simp add: collection_def)
  then have "noteToSave u (current s)
         = u\<lparr>zIndex := if 0 < zIndex u then zIndex u
                        else (case map_of (own (current s)) (id_n u) of
                                Some stored \<Rightarrow> zIndex stored
                              | None \<Rightarrow> 1)\<rparr>"
    by (intro noteToSave_own) simp
  with True assms have "zIndex n \<le> zIndex (noteToSave u (current s))"
    by (auto simp: lowers_def collection_def)
  with True show ?thesis by (simp add: collection_upsertNote update_conv')
next
  case False
  with assms show ?thesis by (simp add: collection_upsertNote update_conv')
qed

lemma finalZIndex_update_ge: "z \<le> finalZIndex_update bz (Some z)"
  by (simp add: finalZIndex_update_def nullish_def split: option.splits)

lemma update_step:
  assumes "map_of (collection s) i = Some n"
  shows "\<exists>n'. map_of (collection (onmessage (MsgUpdate (Some b)) s)) i = Some n' \<and> zIndex n \<le> zIndex n'"
proof (cases "b_id b = Some i \<and> i \<noteq> []")
  case True
  then have c: "collection (onmessage (MsgUpdate (Some b)) s)
     = AList.update i
         (normalizedNote b i (finalZIndex_update (backendZIndex b) (existingZIndex (current s) i)))
         (collection s)"
    by (intro collection_update) simp_all
  from assms have "existingZIndex (current s) i = Some (zIndex n)"
    by (simp add: existingZIndex_def collection_def)
  then show ?thesis
    by (simp add: c update_conv' normalizedNote_def finalZIndex_update_ge)
next
  case False
  show ?thesis
  proof (cases "b_id b")
    case None
    with assms show ?thesis by (simp add: collection_update_skipped)
  next
    case (Some j)
    show ?thesis
    proof (cases "j = []")
      case True
      with Some assms show ?thesis by (simp add: collection_update_skipped)
    next
      case nonempty: False
      with Some False have "j \<noteq> i" by auto
      with assms show ?thesis
        by (simp add: collection_update [OF Some nonempty] update_conv')
    qed
  qed
qed

lemma zop_step:
  assumes "map_of (collection s) i = Some n" and "no_lowering [a] s"
  shows "\<exists>n'. map_of (collection (apply_zop a s)) i = Some n' \<and> zIndex n \<le> zIndex n'"
  using assms
  by (cases a) (simp_all add: apply_zop_def upsert_step update_step collection_render)

lemma run_monotone:
  assumes "no_lowering ops s" and "map_of (collection s) i = Some n"
  shows "\<exists>n'. map_of (collection (run_zops ops s)) i = Some n' \<and> zIndex n \<le> zIndex n'"
  using assms
proof (induction ops arbitrary: s n)
  case Nil
  then show ?case by simp
next
  case (Cons a ops)
  from Cons.prems have "no_lowering [a] s" and rest: "no_lowering ops (apply_zop a s)" by simp_all
  from zop_step [OF Cons.prems(2) this(1)] obtain m
    where m: "map_of (collection (apply_zop a s)) i = Some m" "zIndex n \<le> zIndex m" by blast
  from Cons.IH [OF rest m(1)] obtain n'
    where "map_of (collection (run_zops ops (apply_zop a s))) i = Some n'" "zIndex m \<le> zIndex n'"
    by blast
  with m(2) show ?case by auto
qed

text \<open>
  Claim C1, as stated, fails: after a local upsert of note a with zIndex 5, a local upsert
  of the same note with zIndex 2 stores 2.
\<close>

theorem local_upsert_lowers_zIndex:
  "map_of (collection (run_zops [LocalUpsert True (sample ''a'' 5)] (initial True))) ''a''
     = Some (sample ''a'' 5)
 \<and> map_of (collection (run_zops
       [LocalUpsert True (sample ''a'' 5), Render, LocalUpsert True (sample ''a'' 2), Render]
       (initial True))) ''a''
     = Some (sample ''a'' 2)
 \<and> zIndex (sample ''a'' 2) < zIndex (sample ''a'' 5)"
  by (simp add: apply_zop_def collection_upsertNote collection_render noteToSave_def
      finalZIndex_upsert_def)
     (simp add: sample_def initial_def collection_def current_def empty_record_def)

text \<open>
  Claim C1, amended. Across any sequence of local upserts, inbound update frames and
  renders in which no local upsert carries a positive zIndex below the one stored under
  its id, an entity that is present stays present and its zIndex does not decrease. A
  local upsert leaves the other entities as they are and stores its note with the note's
  own zIndex when that is positive, else with the zIndex stored under its id, else (a new
  id) with 1; this is stated where the lookup of the id finds an own property or nothing
  (any id but \<^verbatim>\<open>__proto__\<close>, or a collection with the prototype of a plain object).
\<close>

theorem zIndex_monotone_unless_lowered:
  assumes "no_lowering ops s" and "map_of (collection s) i = Some n"
  shows "(\<exists>n'. map_of (collection (run_zops ops s)) i = Some n' \<and> zIndex n \<le> zIndex n')
       \<and> (id_n u \<noteq> ''__proto__'' \<or> proto (current t) = None \<longrightarrow>
            map_of (collection (upsertNote eager u t)) (id_n u)
              = Some (u\<lparr>zIndex := if 0 < zIndex u then zIndex u
                                   else (case map_of (collection t) (id_n u) of
                                           Some stored \<Rightarrow> zIndex stored
                                         | None \<Rightarrow> 1)\<rparr>))
       \<and> (j \<noteq> id_n u \<longrightarrow>
            map_of (collection (upsertNote eager u t)) j = map_of (collection t) j)"
proof -
  have 1: "\<exists>n'. map_of (collection (run_zops ops s)) i = Some n' \<and> zIndex n \<le> zIndex n'"
    by (rule run_monotone [OF assms])
  have 2: "map_of (collection (upsertNote eager u t)) (id_n u)
              = Some (u\<lparr>zIndex := if 0 < zIndex u then zIndex u
                                   else (case map_of (collection t) (id_n u) of
                                           Some stored \<Rightarrow> zIndex stored
                                         | None \<Rightarrow> 1)\<rparr>)"
    if "id_n u \<noteq> ''__proto__'' \<or> proto (current t) = None"
  proof -
    from that have "id_n u \<noteq> ''__proto__'' \<or> proto (current t) = None
        \<or> map_of (own (current t)) (id_n u) \<noteq> None" by blast
    from noteToSave_own [OF this]
    have "noteToSave u (current t)
          = u\<lparr>zIndex := if 0 < zIndex u then zIndex u
                         else (case map_of (collection t) (id_n u) of
                                 Some stored \<Rightarrow> zIndex stored
                               | None \<Rightarrow> 1)\<rparr>"
      by (simp add: collection_def)
    then show ?thesis
      by (simp add: collection_upsertNote update_conv')
  qed
  have 3: "map_of (collection (upsertNote eager u t)) j = map_of (collection t) j" if "j \<noteq> id_n u"
    using that by (simp add: collection_upsertNote update_conv')
  from 1 2 3 show ?thesis by blast
qed

theorem zIndex_monotone_unless_lowered_witness:
  "no_lowering [LocalUpsert False (sample ''a'' 7), RemoteUpdate (backend (Some ''a'') (Some 3) None),
                Render, LocalUpsert True (sample ''a'' 0)]
     (upsertNote True (sample ''a'' 5) (initial True))
 \<and> map_of (collection (upsertNote True (sample ''a'' 5) (initial True))) ''a'' = Some (sample ''a'' 5)
 \<and> (\<exists>n'. map_of (collection (run_zops
        [LocalUpsert False (sample ''a'' 7), RemoteUpdate (backend (Some ''a'') (Some 3) None),
         Render, LocalUpsert True (sample ''a'' 0)]
        (upsertNote True (sample ''a'' 5) (initial True)))) ''a'' = Some n'
      \<and> zIndex (sample ''a'' 5) \<le> zIndex n')
 \<and> proto (current (initial True)) = None
 \<and> map_of (collection (upsertNote True (sample ''b'' 0) (initial True))) ''b'' = Some (sample ''b'' 1)
 \<and> map_of (collection (upsertNote True (sample ''b'' 0) (initial True))) ''a'' = None"
proof -
  let ?s = "upsertNote True (sample ''a'' 5) (initial True)"
  let ?ops = "[LocalUpsert False (sample ''a'' 7), RemoteUpdate (backend (Some ''a'') (Some 3) None),
                Render, LocalUpsert True (sample ''a'' 0)]"
  have c0: "current (initial True) = empty_record"
    by (simp add: current_def initial_def)
  have p0: "proto (current (initial True)) = None" by (simp add: c0 empty_record_def)
  have k0: "collection (initial True) = []" by (simp add: collection_def c0 empty_record_def)
  have k1: "collection ?s = [(''a'', sample ''a'' 5)]"
    by (simp add: collection_upsertNote k0 noteToSave_def finalZIndex_upsert_def) (simp add: sample_def)
  have g: "no_lowering ?ops ?s"
    by (simp add: apply_zop_def lowers_def collection_upsertNote collection_render k1
        noteToSave_def finalZIndex_upsert_def)
       (simp add: sample_def backend_def collection_update update_conv' normalizedNote_def
         lowers_def)
  have p: "map_of (collection ?s) ''a'' = Some (sample ''a'' 5)" by (simp add: k1)
  have b: "id_n (sample ''b'' 0) = ''b''"
    "(sample ''b'' 0)\<lparr>zIndex := 1\<rparr> = sample ''b'' 1" "\<not> 0 < zIndex (sample ''b'' 0)"
    by (simp_all add: sample_def)
  from zIndex_monotone_unless_lowered [OF g p, where u = "sample ''b'' 0" and t = "initial True"
      and eager = True and j = "''a''"] p0
  have 1: "\<exists>n'. map_of (collection (run_zops ?ops ?s)) ''a'' = Some n' \<and> zIndex (sample ''a'' 5) \<le> zIndex n'"
    and 2: "map_of (collection (upsertNote True (sample ''b'' 0) (initial True))) ''b'' = Some (sample ''b'' 1)"
    and 3: "map_of (collection (upsertNote True (sample ''b'' 0) (initial True))) ''a'' = None"
    by (simp_all add: b k0)
  from g p 1 p0 2 3 show ?thesis by blast
qed

section \<open>The bounded outbound queue\<close>

lemma enqueue_bounded: "length q \<le> 100 \<Longrightarrow> length (enqueue f q) \<le> 100"
  by (cases q) (auto simp: enqueue_def MAX_QUEUE_SIZE_def)

lemma enqueue_evicts_oldest:
  "length q \<le> 100 \<Longrightarrow>
   enqueue f q = drop (length (q @ [f]) - 100) (q @ [f])"
  by (cases q) (auto simp: enqueue_def MAX_QUEUE_SIZE_def Suc_diff_le drop_Cons')

lemma transmit_bounded:
  "length (messageQueue s) \<le> 100 \<Longrightarrow> length (messageQueue (transmit f s)) \<le> 100"
  by (auto simp: transmit_def send_def enqueue_bounded split: option.splits)

lemma effects_bounded:
  "length (messageQueue s) \<le> 100 \<Longrightarrow> length (messageQueue (effects u prev s)) \<le> 100"
  by (auto simp: effects_def transmit_bounded split: Updater.splits)

lemma process_bounded:
  "length (messageQueue s) \<le> 100 \<Longrightarrow> length (messageQueue (process us prev s)) \<le> 100"
  by (induction us prev s rule: process.induct) (simp_all add: effects_bounded)

text \<open>
  The part of claim C6 that holds: no local call and no render lets the queue exceed 100
  frames.
\<close>

lemma queue_stays_bounded:
  assumes "length (messageQueue s) \<le> 100"
  shows "length (messageQueue (upsertNote eager note s)) \<le> 100"
    and "length (messageQueue (deleteNote i s)) \<le> 100"
    and "length (messageQueue (render s)) \<le> 100"
  using assms
  by (simp_all add: upsertNote_def deleteNote_def setNotes_def render_def effects_bounded
      transmit_bounded process_bounded)

text \<open>
  Claim C6 fails on the code by a slip: \<^verbatim>\<open>upsertNote\<close> queues its frame inside the state
  updater, \<^verbatim>\<open>deleteNote\<close> in the call itself. With no socket open, the calls upsert a,
  upsert b, delete c in one task leave the queue update a, delete c, update b when React
  calls the first updater at the dispatch, and delete c, update a, update b when it calls
  both at the render: in neither case the order of the intents. Under StrictMode an
  updater called at the render queues its frame twice.
\<close>

theorem queue_out_of_call_order:
  "\<not> socket_is_open (initial True)
 \<and> messageQueue (render (deleteNote ''c'' (upsertNote False (sample ''b'' 1)
       (upsertNote True (sample ''a'' 1) (initial True)))))
     = [UpdateFrame (sample ''a'' 1), DeleteFrame ''c'', UpdateFrame (sample ''b'' 1)]
 \<and> messageQueue (render (deleteNote ''c'' (upsertNote False (sample ''b'' 1)
       (upsertNote False (sample ''a'' 1) (initial True)))))
     = [DeleteFrame ''c'', UpdateFrame (sample ''a'' 1), UpdateFrame (sample ''b'' 1)]
 \<and> messageQueue (render (upsertNote False (sample ''a'' 1) ((initial True)\<lparr>strictMode := True\<rparr>)))
     = [UpdateFrame (sample ''a'' 1), UpdateFrame (sample ''a'' 1)]"
proof -
  have n: "noteToSave (sample i 1) prev = sample i 1" for i prev
    by (simp add: noteToSave_def finalZIndex_upsert_def sample_def)
  have 0: "\<not> socket_is_open (initial True)" by (simp add: socket_is_open_def initial_def)
  have 1: "messageQueue (render (deleteNote ''c'' (upsertNote False (sample ''b'' 1)
       (upsertNote True (sample ''a'' 1) (initial True)))))
     = [UpdateFrame (sample ''a'' 1), DeleteFrame ''c'', UpdateFrame (sample ''b'' 1)]"
    by (simp add: upsertNote_def deleteNote_def setNotes_def render_def effects_def n
        transmit_def initial_def enqueue_def MAX_QUEUE_SIZE_def)
  have 2: "messageQueue (render (deleteNote ''c'' (upsertNote False (sample ''b'' 1)
       (upsertNote False (sample ''a'' 1) (initial True)))))
     = [DeleteFrame ''c'', UpdateFrame (sample ''a'' 1), UpdateFrame (sample ''b'' 1)]"
    by (simp add: upsertNote_def deleteNote_def setNotes_def render_def effects_def n
        transmit_def initial_def enqueue_def MAX_QUEUE_SIZE_def)
  have 3: "messageQueue (render (upsertNote False (sample ''a'' 1) ((initial True)\<lparr>strictMode := True\<rparr>)))
     = [UpdateFrame (sample ''a'' 1), UpdateFrame (sample ''a'' 1)]"
    by (simp add: upsertNote_def setNotes_def render_def effects_def n
        transmit_def initial_def enqueue_def MAX_QUEUE_SIZE_def)
  from 0 1 2 3 show ?thesis by blast
qed

section \<open>Bring to front\<close>

lemma foldl_max_ge: "(m::int) \<le> foldl (\<lambda>mx n. max mx (f n)) m xs"
proof (induction xs arbitrary: m)
  case Nil
  then show ?case by simp
next
  case (Cons x xs)
  have "m \<le> max m (f x)" by simp
  also have "\<dots> \<le> foldl (\<lambda>mx n. max mx (f n)) (max m (f x)) xs" by (rule Cons.IH)
  finally show ?case by simp
qed

lemma foldl_max_mem: "x \<in> set xs \<Longrightarrow> f x \<le> foldl (\<lambda>mx n. max mx (f n)) (m::int) xs"
proof (induction xs arbitrary: m)
  case Nil
  then show ?case by simp
next
  case (Cons y ys)
  show ?case
  proof (cases "x = y")
    case True
    have "f y \<le> max m (f y)" by simp
    also have "\<dots> \<le> foldl (\<lambda>mx n. max mx (f n)) (max m (f y)) ys" by (rule foldl_max_ge)
    finally show ?thesis using True by simp
  next
    case False
    with Cons.prems have "x \<in> set ys" by simp
    from Cons.IH [OF this] show ?thesis by simp
  qed
qed

lemma maxZIndex_nonneg: "0 \<le> maxZIndex ns"
  unfolding maxZIndex_def by (rule foldl_max_ge)

lemma maxZIndex_ge: "map_of ns i = Some n \<Longrightarrow> zIndex n \<le> maxZIndex ns"
proof -
  assume "map_of ns i = Some n"
  then have "(i, n) \<in> set ns" by (rule map_of_SomeD)
  then have "n \<in> set (map snd ns)" by force
  from foldl_max_mem [OF this, of "\<lambda>n. if zIndex n = 0 then 0 else zIndex n" 0]
  show ?thesis by (simp add: maxZIndex_def)
qed

lemma foldl_max_attained:
  "foldl (\<lambda>mx n. max mx (f n)) (m::int) xs = m
 \<or> (\<exists>x \<in> set xs. foldl (\<lambda>mx n. max mx (f n)) m xs = f x)"
proof (induction xs arbitrary: m)
  case Nil
  then show ?case by simp
next
  case (Cons y ys)
  from Cons.IH [of "max m (f y)"] show ?case
    by (auto simp: max_def split: if_splits)
qed

lemma maxZIndex_attained: "maxZIndex ns = 0 \<or> (\<exists>n \<in> snd ` set ns. zIndex n = maxZIndex ns)"
proof -
  have e: "(\<lambda>n::Note. if zIndex n = 0 then 0 else zIndex n) = zIndex" by auto
  from foldl_max_attained [of zIndex 0 "map snd ns"]
  show ?thesis unfolding maxZIndex_def e by force
qed

lemma js_plus1_exact: "0 \<le> c \<Longrightarrow> c < 2 ^ 53 \<Longrightarrow> js_plus1 c = c + 1"
  by (simp add: js_plus1_def)

lemma js_plus1_rounds: "js_plus1 (2 ^ 53) = 2 ^ 53"
  by (simp add: js_plus1_def)

lemma noteToSave_positive: "0 < z \<Longrightarrow> noteToSave (v\<lparr>zIndex := z\<rparr>) prev = v\<lparr>zIndex := z\<rparr>"
  by (simp add: noteToSave_def finalZIndex_upsert_def)

lemma transmit_pending: "transmit f (s\<lparr>pending := p\<rparr>) = (transmit f s)\<lparr>pending := p\<rparr>"
  by (simp add: transmit_def send_def socket_is_open_def split: option.splits)

lemma render_upsertNote:
  assumes "pending s = []"
  shows "render (upsertNote eager note s)
         = (if strictMode s \<and> \<not> eager
            then transmit (UpdateFrame (noteToSave note (notes_st s)))
                   (transmit (UpdateFrame (noteToSave note (notes_st s))) s)
            else transmit (UpdateFrame (noteToSave note (notes_st s))) s)
           \<lparr>notes_st := spread_with (notes_st s) (id_n note) (noteToSave note (notes_st s)),
             pending := []\<rparr>"
  using assms
  by (simp add: upsertNote_def setNotes_def render_def effects_def returned_def transmit_pending)

text \<open>
  Claim C9, as stated, fails: on the board a:3, b:5, c:2 the rendered maximum is 5. Bringing
  a to front stores 6, so the maximum of the collection is 6 from then on. A second call
  through the same callback (no render between the two calls) compares with 5 again:
  for b it leaves 5 and for c it stores 6, where the claim requires 7 in both cases.
\<close>

theorem bring_to_front_stale_max:
  "maxZIndex (collection board) = 5
 \<and> map_option zIndex (map_of (collection (handleUpdateNote 5 True (sample ''a'' 3) board)) ''a'')
     = Some 6
 \<and> maxZIndex (collection (handleUpdateNote 5 True (sample ''a'' 3) board)) = 6
 \<and> map_option zIndex (map_of (collection (handleUpdateNote 5 False (sample ''b'' 5)
       (handleUpdateNote 5 True (sample ''a'' 3) board))) ''b'') = Some 5
 \<and> map_option zIndex (map_of (collection (handleUpdateNote 5 False (sample ''c'' 2)
       (handleUpdateNote 5 True (sample ''a'' 3) board))) ''c'') = Some 6"
proof -
  have b: "collection board
           = [(''a'', sample ''a'' 3), (''b'', sample ''b'' 5), (''c'', sample ''c'' 2)]"
    by (simp add: collection_def current_def board_def initial_def)
  have j: "js_plus1 5 = 6" by (simp add: js_plus1_def)
  have h: "handleUpdateNote 5 e (sample i z) s
           = (if z < 5 then upsertNote e (sample i 6) s else upsertNote e (sample i z) s)" for e i z s
    by (simp add: handleUpdateNote_def j) (simp add: sample_def)
  have n: "0 < z \<Longrightarrow> noteToSave (sample i z) prev = sample i z" for i z prev
    by (simp add: noteToSave_def finalZIndex_upsert_def sample_def)
  have i: "id_n (sample i z) = i" "zIndex (sample i z) = z" for i z by (simp_all add: sample_def)
  have a: "collection (handleUpdateNote 5 True (sample ''a'' 3) board)
           = [(''a'', sample ''a'' 6), (''b'', sample ''b'' 5), (''c'', sample ''c'' 2)]"
    by (simp add: h collection_upsertNote n i b)
  show ?thesis
    by (simp add: h collection_upsertNote n i a) (simp add: b maxZIndex_def i)
qed

text \<open>
  Claim C9, amended. The callback compares with the maximum captured at the last render
  (the largest of 0 and the zIndex values of the collection), here below \<open>2 ^ 53\<close>, where
  adding 1 is exact. When that is the maximum of the current collection and the entity is
  the stored one: an entity at the maximum leaves the collection unchanged; any other is
  persisted with the maximum plus 1 and, when React calls the updater, transmitted with it
  (with no other update pending: once, at the dispatch or at the render; twice when
  called at the render under StrictMode). For any captured maximum \<open>c\<close> from 0 to below \<open>2 ^ 53\<close>, an
  entity below it is stored with \<open>c + 1\<close>. At \<open>2 ^ 53\<close> adding 1 yields \<open>2 ^ 53\<close>.
\<close>

theorem bring_to_front_rendered_max:
  assumes "map_of (collection s) (id_n u) = Some u" and "m = maxZIndex (collection s)"
    and "m < 2 ^ 53"
  shows "(zIndex u = m \<longrightarrow> collection (handleUpdateNote m eager u s) = collection s)
       \<and> (zIndex u \<noteq> m \<longrightarrow>
            map_of (collection (handleUpdateNote m eager u s)) (id_n u) = Some (u\<lparr>zIndex := m + 1\<rparr>)
          \<and> (pending s = [] \<and> (strictMode s \<longrightarrow> \<not> eager) \<longrightarrow>
               render (handleUpdateNote m eager u s)
                 = (if strictMode s
                    then transmit (UpdateFrame (u\<lparr>zIndex := m + 1\<rparr>))
                           (transmit (UpdateFrame (u\<lparr>zIndex := m + 1\<rparr>)) s)
                    else transmit (UpdateFrame (u\<lparr>zIndex := m + 1\<rparr>)) s)
                   \<lparr>notes_st := \<lparr>own = AList.update (id_n u) (u\<lparr>zIndex := m + 1\<rparr>) (collection s),
                                 proto = None\<rparr>,
                     pending := []\<rparr>))
       \<and> (\<forall>c v. zIndex v < c \<and> 0 \<le> c \<and> c < 2 ^ 53 \<longrightarrow>
            map_of (collection (handleUpdateNote c eager v s)) (id_n v) = Some (v\<lparr>zIndex := c + 1\<rparr>))
       \<and> js_plus1 (2 ^ 53) = 2 ^ 53
       \<and> 0 \<le> m
       \<and> (\<forall>n \<in> snd ` set (collection s). zIndex n \<le> m)
       \<and> (m = 0 \<or> (\<exists>n \<in> snd ` set (collection s). zIndex n = m))"
proof -
  have le: "zIndex u \<le> m" and nn: "0 \<le> m"
    using assms maxZIndex_ge maxZIndex_nonneg by simp_all
  have own: "map_of (own (current s)) (id_n u) = Some u"
    using assms(1) by (simp add: collection_def)
  have same: "noteToSave u (current s) = u"
    using own by (simp add: noteToSave_def finalZIndex_upsert_def existingZIndex_def nullish_def)
  have 1: "zIndex u = m \<longrightarrow> collection (handleUpdateNote m eager u s) = collection s"
    using assms(1) by (simp add: handleUpdateNote_def collection_upsertNote same update_triv)
  have plus: "js_plus1 c = c + 1" if "0 \<le> c" "c < 2 ^ 53" for c
    using that by (rule js_plus1_exact)
  have up: "noteToSave (v\<lparr>zIndex := c + 1\<rparr>) prev = v\<lparr>zIndex := c + 1\<rparr>" if "0 \<le> c" for v c prev
    using that by (intro noteToSave_positive) simp
  have 2: "map_of (collection (handleUpdateNote m eager u s)) (id_n u) = Some (u\<lparr>zIndex := m + 1\<rparr>)"
    if "zIndex u \<noteq> m"
    using that le nn assms(3)
    by (simp add: handleUpdateNote_def collection_upsertNote plus up update_conv')
  have 3: "render (handleUpdateNote m eager u s)
                 = (if strictMode s
                    then transmit (UpdateFrame (u\<lparr>zIndex := m + 1\<rparr>))
                           (transmit (UpdateFrame (u\<lparr>zIndex := m + 1\<rparr>)) s)
                    else transmit (UpdateFrame (u\<lparr>zIndex := m + 1\<rparr>)) s)
                   \<lparr>notes_st := \<lparr>own = AList.update (id_n u) (u\<lparr>zIndex := m + 1\<rparr>) (collection s),
                                 proto = None\<rparr>,
                     pending := []\<rparr>"
    if "zIndex u \<noteq> m" "pending s = []" "strictMode s \<longrightarrow> \<not> eager"
  proof -
    from that(2) have c: "collection s = own (notes_st s)"
      by (simp add: collection_def current_def)
    from that(1) le nn assms(3)
    have h: "handleUpdateNote m eager u s = upsertNote eager (u\<lparr>zIndex := m + 1\<rparr>) s"
      by (simp add: handleUpdateNote_def plus)
    show ?thesis
      using nn that(3) by (auto simp: h render_upsertNote [OF that(2)] up spread_with_def c)
  qed
  have 4: "\<forall>c v. zIndex v < c \<and> 0 \<le> c \<and> c < 2 ^ 53 \<longrightarrow>
            map_of (collection (handleUpdateNote c eager v s)) (id_n v) = Some (v\<lparr>zIndex := c + 1\<rparr>)"
    by (simp add: handleUpdateNote_def collection_upsertNote plus up update_conv')
  have 5: "\<forall>n \<in> snd ` set (collection s). zIndex n \<le> m"
  proof
    fix n assume "n \<in> snd ` set (collection s)"
    then have "n \<in> set (map snd (collection s))" by simp
    from foldl_max_mem [OF this, of "\<lambda>n. if zIndex n = 0 then 0 else zIndex n" 0]
    show "zIndex n \<le> m" by (simp add: assms(2) maxZIndex_def)
  qed
  have 6: "m = 0 \<or> (\<exists>n \<in> snd ` set (collection s). zIndex n = m)"
    using maxZIndex_attained [of "collection s"] by (simp add: assms(2))
  from 1 2 3 4 5 6 nn js_plus1_rounds show ?thesis by blast
qed

theorem bring_to_front_rendered_max_witness:
  "map_of (collection board) (id_n (sample ''a'' 3)) = Some (sample ''a'' 3)
 \<and> 5 = maxZIndex (collection board)
 \<and> map_of (collection (handleUpdateNote 5 True (sample ''a'' 3) board)) ''a'' = Some (sample ''a'' 6)
 \<and> pending board = []
 \<and> messageQueue (render (handleUpdateNote 5 True (sample ''a'' 3) board))
     = [UpdateFrame (sample ''a'' 6)]
 \<and> map_of (collection board) (id_n (sample ''b'' 5)) = Some (sample ''b'' 5)
 \<and> collection (handleUpdateNote 5 True (sample ''b'' 5) board) = collection board
 \<and> zIndex (sample ''c'' 2) < 5
 \<and> map_of (collection (handleUpdateNote 5 True (sample ''c'' 2) board)) ''c'' = Some (sample ''c'' 6)"
proof -
  have k: "collection board
           = [(''a'', sample ''a'' 3), (''b'', sample ''b'' 5), (''c'', sample ''c'' 2)]"
    by (simp add: collection_def current_def board_def initial_def)
  have a: "map_of (collection board) (id_n (sample ''a'' 3)) = Some (sample ''a'' 3)"
    by (simp add: k) (simp add: sample_def)
  have b: "map_of (collection board) (id_n (sample ''b'' 5)) = Some (sample ''b'' 5)"
    by (simp add: k) (simp add: sample_def)
  have m: "5 = maxZIndex (collection board)"
    by (simp add: k maxZIndex_def) (simp add: sample_def)
  have l: "(5::int) < 2 ^ 53" by simp
  have p: "pending board = []" by (simp add: board_def initial_def)
  have z: "zIndex (sample ''a'' 3) \<noteq> 5" "zIndex (sample ''b'' 5) = 5"
    "(sample ''a'' 3)\<lparr>zIndex := 5 + 1\<rparr> = sample ''a'' 6" "id_n (sample ''a'' 3) = ''a''"
    by (simp_all add: sample_def)
  have q: "messageQueue (transmit f board) = [f]" for f
    by (simp add: transmit_def board_def initial_def enqueue_def MAX_QUEUE_SIZE_def)
  have st: "\<not> strictMode board" by (simp add: board_def initial_def)
  from bring_to_front_rendered_max [OF a m l, of True] z
  have 1: "map_of (collection (handleUpdateNote 5 True (sample ''a'' 3) board)) ''a'' = Some (sample ''a'' 6)"
    and r: "pending board = [] \<and> (strictMode board \<longrightarrow> \<not> True) \<longrightarrow>
         render (handleUpdateNote 5 True (sample ''a'' 3) board)
         = (if strictMode board
            then transmit (UpdateFrame (sample ''a'' 6)) (transmit (UpdateFrame (sample ''a'' 6)) board)
            else transmit (UpdateFrame (sample ''a'' 6)) board)
           \<lparr>notes_st := \<lparr>own = AList.update ''a'' (sample ''a'' 6) (collection board), proto = None\<rparr>,
             pending := []\<rparr>"
    by simp_all
  from r p st have 2: "messageQueue (render (handleUpdateNote 5 True (sample ''a'' 3) board))
     = [UpdateFrame (sample ''a'' 6)]"
    by (simp add: q)
  from bring_to_front_rendered_max [OF b m l, of True] z
  have 3: "collection (handleUpdateNote 5 True (sample ''b'' 5) board) = collection board"
    by simp
  have c: "zIndex (sample ''c'' 2) < 5 \<and> (0::int) \<le> 5 \<and> (5::int) < 2 ^ 53"
    "(sample ''c'' 2)\<lparr>zIndex := 5 + 1\<rparr> = sample ''c'' 6" "id_n (sample ''c'' 2) = ''c''"
    by (simp_all add: sample_def)
  from bring_to_front_rendered_max [OF a m l, of True] c(1)
  have "map_of (collection (handleUpdateNote 5 True (sample ''c'' 2) board)) (id_n (sample ''c'' 2))
        = Some ((sample ''c'' 2)\<lparr>zIndex := 5 + 1\<rparr>)"
    by blast
  then have 4: "map_of (collection (handleUpdateNote 5 True (sample ''c'' 2) board)) ''c'' = Some (sample ''c'' 6)"
    by (simp only: c)
  from a m 1 p 2 b 3 4 c(1) show ?thesis by blast
qed

end
